theory Spec2Isabelle
  imports Main "HOL-Library.Sublist" "HOL-Library.AList" "HOL-Library.Multiset"
begin

section \<open>domain-recon: extraction, wildcard expansion and reporting\<close>

text \<open>
  The development follows \<^verbatim>\<open>cmd/main.go\<close>: the functions
  \<^verbatim>\<open>getResolvableDomains\<close>, \<^verbatim>\<open>cleanDomainNames\<close>,
  \<^verbatim>\<open>partitionDomains\<close>, \<^verbatim>\<open>extendWildcardDomains\<close>,
  \<^verbatim>\<open>computeDifference\<close>, \<^verbatim>\<open>printDomains\<close>,
  \<^verbatim>\<open>printReachableDomains\<close> and \<^verbatim>\<open>lookUpDns\<close>.
  A Go string is a sequence of bytes, here a \<^typ>\<open>string\<close> (a list of 8-bit characters).
  A Go slice is a list; a nil slice and an empty slice are both \<open>[]\<close> (the program only
  ranges over slices, appends to them and takes their length).
\<close>

subsection \<open>The standard-library string functions the program calls\<close>

text \<open>
  \<^verbatim>\<open>strings.Split(s, "\n")\<close>: the pieces of \<open>s\<close> between the separator bytes. The
  separator is a single byte in every call of the program. An empty \<open>s\<close> gives one empty
  piece.
\<close>

fun Split :: "string \<Rightarrow> char \<Rightarrow> string list" where
  "Split [] sep = [[]]"
| "Split (c # cs) sep =
     (if c = sep then [] # Split cs sep
      else (case Split cs sep of [] \<Rightarrow> [[c]] | piece # pieces \<Rightarrow> (c # piece) # pieces))"

text \<open>
  \<^verbatim>\<open>strings.HasPrefix(s, prefix)\<close> is
  \<^verbatim>\<open>len(s) >= len(prefix) && s[:len(prefix)] == prefix\<close>.
\<close>

definition HasPrefix :: "string \<Rightarrow> string \<Rightarrow> bool" where
  "HasPrefix s pre \<longleftrightarrow> length s \<ge> length pre \<and> take (length pre) s = pre"

text \<open>
  \<^verbatim>\<open>strings.Replace(s, "*", new, 1)\<close>: the first occurrence of the one-byte string
  \<open>old\<close> is replaced by \<open>new\<close>; a string without an occurrence is returned as it is.
\<close>

fun Replace1 :: "string \<Rightarrow> char \<Rightarrow> string \<Rightarrow> string" where
  "Replace1 [] old new = []"
| "Replace1 (c # cs) old new = (if c = old then new @ cs else c # Replace1 cs old new)"

text \<open>
  \<^verbatim>\<open>strings.TrimSpace\<close> removes from both ends every rune for which
  \<^verbatim>\<open>unicode.IsSpace\<close> holds. The string is decoded as UTF-8; an invalid byte decodes
  to the replacement rune, which is no space, and the white-space runes have exactly one
  encoding each, so a rune is trimmed from an end exactly when one of the byte sequences
  below stands at that end. The runes are the six ASCII ones (tab, line feed, vertical tab,
  form feed, carriage return, space), U+0085, U+00A0, U+1680, U+2000 to U+200A, U+2028,
  U+2029, U+202F, U+205F and U+3000.
\<close>

definition spaceRunes :: "string list" where
  "spaceRunes =
    [[CHR 0x09], [CHR 0x0A], [CHR 0x0B], [CHR 0x0C], [CHR 0x0D], [CHR 0x20],
     [CHR 0xC2, CHR 0x85], [CHR 0xC2, CHR 0xA0],
     [CHR 0xE1, CHR 0x9A, CHR 0x80],
     [CHR 0xE2, CHR 0x80, CHR 0x80], [CHR 0xE2, CHR 0x80, CHR 0x81],
     [CHR 0xE2, CHR 0x80, CHR 0x82], [CHR 0xE2, CHR 0x80, CHR 0x83],
     [CHR 0xE2, CHR 0x80, CHR 0x84], [CHR 0xE2, CHR 0x80, CHR 0x85],
     [CHR 0xE2, CHR 0x80, CHR 0x86], [CHR 0xE2, CHR 0x80, CHR 0x87],
     [CHR 0xE2, CHR 0x80, CHR 0x88], [CHR 0xE2, CHR 0x80, CHR 0x89],
     [CHR 0xE2, CHR 0x80, CHR 0x8A],
     [CHR 0xE2, CHR 0x80, CHR 0xA8], [CHR 0xE2, CHR 0x80, CHR 0xA9],
     [CHR 0xE2, CHR 0x80, CHR 0xAF], [CHR 0xE2, CHR 0x81, CHR 0x9F],
     [CHR 0xE3, CHR 0x80, CHR 0x80]]"

definition leadingSpace :: "string \<Rightarrow> string option" where
  "leadingSpace s = find (\<lambda>w. prefix w s) spaceRunes"

definition trailingSpace :: "string \<Rightarrow> string option" where
  "trailingSpace s = find (\<lambda>w. suffix w s) spaceRunes"

lemma spaceRunes_nonempty: "w \<in> set spaceRunes \<Longrightarrow> w \<noteq> []"
  by (auto simp: spaceRunes_def)

lemma leadingSpace_shorter: "leadingSpace s = Some w \<Longrightarrow> length s - length w < length s"
proof -
  assume "leadingSpace s = Some w"
  then have "w \<in> set spaceRunes" and "prefix w s"
    by (auto simp: leadingSpace_def find_Some_iff)
  then have "w \<noteq> []" and "length w \<le> length s"
    by (auto simp: spaceRunes_nonempty prefix_length_le)
  then show ?thesis by (cases w) auto
qed

lemma trailingSpace_shorter:
  "trailingSpace s = Some w \<Longrightarrow> length s - length w < length s"
proof -
  assume "trailingSpace s = Some w"
  then have "w \<in> set spaceRunes" and "suffix w s"
    by (auto simp: trailingSpace_def find_Some_iff)
  then have "w \<noteq> []" and "length w \<le> length s"
    by (auto simp: spaceRunes_nonempty suffix_length_le)
  then show ?thesis by (cases w) auto
qed

function TrimLeftSpace :: "string \<Rightarrow> string" where
  "TrimLeftSpace s =
     (case leadingSpace s of None \<Rightarrow> s | Some w \<Rightarrow> TrimLeftSpace (drop (length w) s))"
  by pat_completeness auto
termination
  by (relation "measure length") (auto simp: leadingSpace_shorter)

function TrimRightSpace :: "string \<Rightarrow> string" where
  "TrimRightSpace s =
     (case trailingSpace s of None \<Rightarrow> s
      | Some w \<Rightarrow> TrimRightSpace (take (length s - length w) s))"
  by pat_completeness auto
termination
  by (relation "measure length") (auto simp: trailingSpace_shorter)

definition TrimSpace :: "string \<Rightarrow> string" where
  "TrimSpace s = TrimRightSpace (TrimLeftSpace s)"

subsection \<open>Data\<close>

text \<open>The struct \<^verbatim>\<open>Opts\<close> of the command line.\<close>

record Opts =
  Verbose :: "bool list"
  Plain :: bool
  Opts_Domain :: string
  File :: string

text \<open>The struct \<^verbatim>\<open>Certificate\<close>, one row of the answer of crt.sh.\<close>

record Certificate =
  IssuerCaId :: int
  IssuerName :: string
  CommonName :: string
  NameValue :: string
  Id :: int
  EntryTimestamp :: string
  NotBefore :: string
  NotAfter :: string
  SerialNumber :: string

text \<open>
  A Go \<^verbatim>\<open>map[string]bool\<close> is an association list with distinct keys. The
  assignment \<^verbatim>\<open>m[k] = v\<close> overwrites the entry of \<open>k\<close> or adds one; the
  two-valued lookup \<^verbatim>\<open>_, exists := m[k]\<close> asks whether \<open>k\<close> has an entry.
\<close>

type_synonym go_map = "(string \<times> bool) list"

definition map_assign :: "go_map \<Rightarrow> string \<Rightarrow> bool \<Rightarrow> go_map" where
  "map_assign m k v = AList.update k v m"

definition map_exists :: "go_map \<Rightarrow> string \<Rightarrow> bool" where
  "map_exists m k \<longleftrightarrow> map_of m k \<noteq> None"

text \<open>
  \<^verbatim>\<open>maps.Keys(m)\<close> ranges over the map and returns its keys "in an indeterminate
  order". The order the runtime picks is the extra argument \<open>order\<close>, a list of priorities:
  the keys that occur in \<open>order\<close> come first, as \<open>order\<close> arranges them, the others
  follow. Every \<open>order\<close> gives the keys once each (\<open>maps_Keys_distinct\<close>,
  \<open>maps_Keys_set\<close>), and every arrangement of the keys is the result for some \<open>order\<close>
  (\<open>maps_Keys_any_order\<close>), so a statement for all \<open>order\<close> is a statement for every
  iteration order of the Go runtime.
\<close>

definition maps_Keys :: "string list \<Rightarrow> go_map \<Rightarrow> string list" where
  "maps_Keys order m =
     filter (\<lambda>k. map_exists m k) (remdups order) @
     filter (\<lambda>k. k \<notin> set order) (remdups (map fst m))"

subsection \<open>Extraction and partition\<close>

text \<open>
  \<^verbatim>\<open>cleanDomainNames\<close>: the loop appends the trimmed name of each element.
\<close>

definition cleanDomainNames :: "string list \<Rightarrow> string list" where
  "cleanDomainNames domains =
     foldl (\<lambda>cleanDomains domain. cleanDomains @ [TrimSpace domain]) [] domains"

text \<open>
  \<^verbatim>\<open>partitionDomains\<close>: the loop appends each element to \<open>wildCards\<close> or to
  \<open>nonWildCards\<close>; the result is the pair \<open>(wildCards, nonWildCards)\<close>.
\<close>

definition partitionDomains :: "string list \<Rightarrow> string list \<times> string list" where
  "partitionDomains domains =
     foldl (\<lambda>(wildCards, nonWildCards) domain.
              if HasPrefix domain ''*'' then (wildCards @ [domain], nonWildCards)
              else (wildCards, nonWildCards @ [domain]))
       ([], []) domains"

text \<open>
  The first loop of \<^verbatim>\<open>getResolvableDomains\<close>: the map \<open>uniqDomains\<close> after
  the common name and every line of the name value of every certificate were assigned.
\<close>

definition uniqDomains :: "Certificate list \<Rightarrow> go_map" where
  "uniqDomains certificates =
     foldl (\<lambda>m cert.
              foldl (\<lambda>m nameValue. map_assign m nameValue True)
                (map_assign m (CommonName cert) True)
                (Split (NameValue cert) (CHR 0x0A)))
       [] certificates"

text \<open>
  Line 199 of \<^verbatim>\<open>getResolvableDomains\<close>: the keys of the map are trimmed and
  partitioned. The result is the pair \<open>(wildCardDomains, domains)\<close>.
\<close>

definition extractDomains :: "string list \<Rightarrow> Certificate list \<Rightarrow> string list \<times> string list" where
  "extractDomains order certificates =
     partitionDomains (cleanDomainNames (maps_Keys order (uniqDomains certificates)))"

subsection \<open>Wildcard expansion\<close>

text \<open>
  The file system the program reads: \<open>files\<close> gives the content of the paths that can be
  read, and \<open>reads\<close> is the log of the paths \<^verbatim>\<open>ioutil.ReadFile\<close> was called with,
  so that whether a file was consulted can be stated. A failed read returns an error value.
\<close>

datatype error = PathError string

record world =
  files :: "string \<Rightarrow> string option"
  reads :: "string list"

definition ioutil_ReadFile :: "string \<Rightarrow> world \<Rightarrow> (error + string) \<times> world" where
  "ioutil_ReadFile path w =
     (case files w path of None \<Rightarrow> Inl (PathError path) | Some content \<Rightarrow> Inr content,
      w\<lparr>reads := reads w @ [path]\<rparr>)"

text \<open>
  The loop of \<^verbatim>\<open>extendWildcardDomains\<close> that fills \<open>words\<close>: every line of the
  content, trimmed.
\<close>

definition words_of :: "string \<Rightarrow> string list" where
  "words_of content =
     foldl (\<lambda>words line. words @ [TrimSpace line]) [] (Split content (CHR 0x0A))"

text \<open>
  The nested loop of \<^verbatim>\<open>extendWildcardDomains\<close> that fills \<open>potentialDomains\<close>.
\<close>

definition potentialDomains_of :: "string list \<Rightarrow> string list \<Rightarrow> string list" where
  "potentialDomains_of domains words =
     foldl (\<lambda>potentialDomains domain.
              foldl (\<lambda>potentialDomains word.
                       potentialDomains @ [Replace1 domain (CHR ''*'') word])
                potentialDomains words)
       [] domains"

definition extendWildcardDomains ::
    "string list \<Rightarrow> string \<Rightarrow> world \<Rightarrow> (error + string list) \<times> world" where
  "extendWildcardDomains domains wordsPath w =
     (case ioutil_ReadFile wordsPath w of
        (Inl err, w') \<Rightarrow> (Inl err, w')
      | (Inr content, w') \<Rightarrow> (Inr (potentialDomains_of domains (words_of content)), w'))"

text \<open>
  \<^verbatim>\<open>computeDifference\<close>: the first loop fills the map \<open>nonWild\<close>, the second
  appends the potential domains that have no entry in it.
\<close>

definition computeDifference :: "string list \<Rightarrow> string list \<Rightarrow> string list" where
  "computeDifference domains potentialDomains =
     (let nonWild = foldl (\<lambda>nonWild domain. map_assign nonWild domain True) [] domains
      in foldl (\<lambda>uniqPotentialDomains domain.
                  if \<not> map_exists nonWild domain then uniqPotentialDomains @ [domain]
                  else uniqPotentialDomains)
           [] potentialDomains)"

text \<open>
  \<^verbatim>\<open>getResolvableDomains\<close> returns \<open>(domains, uniqPotentialDomains)\<close>; it has
  no error result. The error of \<^verbatim>\<open>extendWildcardDomains\<close> is tested and dropped.
\<close>

definition getResolvableDomains ::
    "string list \<Rightarrow> Certificate list \<Rightarrow> Opts \<Rightarrow> world \<Rightarrow> (string list \<times> string list) \<times> world" where
  "getResolvableDomains order certificates opts w =
     (case extractDomains order certificates of
        (wildCardDomains, domains) \<Rightarrow>
          if length (File opts) > 0 then
            (case extendWildcardDomains wildCardDomains (File opts) w of
               (Inr potentialDomains, w') \<Rightarrow>
                 ((domains, [] @ computeDifference domains potentialDomains), w')
             | (Inl err, w') \<Rightarrow> ((domains, []), w'))
          else ((domains, []), w))"

subsection \<open>Resolution and printing\<close>

text \<open>
  A \<^verbatim>\<open>net.IP\<close> is held as the text its \<^verbatim>\<open>String\<close> method gives. The verb
  \<^verbatim>\<open>%s\<close> prints a slice of them between brackets, separated by one space.
  \<^verbatim>\<open>net.LookupIP\<close> is a function of the name: the addresses, or \<open>None\<close> for an
  error. The answers of the name service are taken as fixed during a run, and every lookup
  returns.
\<close>

type_synonym IP = string

type_synonym resolver = "string \<Rightarrow> IP list option"

record DNSLookupResult =
  Domain :: string
  Ips :: "IP list"

fun joinIps :: "IP list \<Rightarrow> string" where
  "joinIps [] = []"
| "joinIps [ip] = ip"
| "joinIps (ip # ips) = ip @ '' '' @ joinIps ips"

definition fmtIps :: "IP list \<Rightarrow> string" where
  "fmtIps ips = ''['' @ joinIps ips @ '']''"

text \<open>The two \<^verbatim>\<open>Printf\<close> calls of \<^verbatim>\<open>printReachableDomains\<close>.\<close>

definition printLine :: "bool \<Rightarrow> DNSLookupResult \<Rightarrow> string" where
  "printLine plain resp =
     (if plain then Domain resp @ [CHR 0x0A]
      else Domain resp @ '' - IPs: '' @ fmtIps (Ips resp) @ [CHR 0x0A])"

text \<open>
  A goroutine running \<^verbatim>\<open>lookUpDns\<close> is before its lookup, or before its send on
  \<open>ch\<close>, or before its send on \<open>errCh\<close>; after the send it is gone.
\<close>

datatype task = Lookup string | SendResult DNSLookupResult | SendError string

datatype outcome = Resolved DNSLookupResult | Failed string

text \<open>
  The state of one call of \<^verbatim>\<open>printReachableDomains\<close>: the domains the first loop
  has still to launch, the goroutines running, the two buffered channels with their capacity
  \<^verbatim>\<open>len(domain)\<close>, the iterations the second loop has still to make, and what was
  printed (one entry for each \<^verbatim>\<open>Printf\<close>). The fields \<open>launched\<close> and \<open>consumed\<close>
  are histories, of the domains a goroutine was launched for and of what the second loop
  received; the program keeps no such lists.
\<close>

record batch =
  todo :: "string list"
  launched :: "string list"
  tasks :: "task multiset"
  ch :: "DNSLookupResult list"
  errCh :: "string list"
  capacity :: nat
  remaining :: nat
  stdout :: "string list"
  consumed :: "outcome list"

definition start :: "string list \<Rightarrow> batch" where
  "start domain =
     \<lparr>todo = domain, launched = [], tasks = {#}, ch = [], errCh = [],
      capacity = length domain,
      remaining = length domain, stdout = [], consumed = []\<rparr>"

definition returned :: "batch \<Rightarrow> bool" where
  "returned s \<longleftrightarrow> todo s = [] \<and> remaining s = 0"

text \<open>
  One step of the main goroutine or of one launched goroutine; the steps interleave in
  any order.
  \<^item> \<open>launch\<close>: an iteration of the first loop, \<^verbatim>\<open>go lookUpDns(domain, ch, errCh)\<close>.
  \<^item> \<open>lookup_ok\<close>, \<open>lookup_err\<close>: the call \<^verbatim>\<open>net.LookupIP(domain)\<close> of a goroutine
    returns, without or with an error.
  \<^item> \<open>send_result\<close>, \<open>send_error\<close>: the send \<^verbatim>\<open>ch <- DNSLookupResult{...}\<close> or
    \<^verbatim>\<open>errCh <- domain\<close> of a goroutine, which then ends. A send on a buffered channel
    needs room in the buffer.
  \<^item> \<open>recv_result\<close>, \<open>recv_error\<close>: an iteration of the second loop, which starts when the
    first loop is over. The \<^verbatim>\<open>select\<close> takes a value from either channel that has
    one, and waits when both are empty; a received result is printed.
\<close>

inductive step :: "resolver \<Rightarrow> bool \<Rightarrow> batch \<Rightarrow> batch \<Rightarrow> bool"
  for resolver :: resolver and plain :: bool where
  launch:
    "todo s = domain # rest \<Longrightarrow>
     step resolver plain s
       (s\<lparr>todo := rest, launched := launched s @ [domain],
          tasks := add_mset (Lookup domain) (tasks s)\<rparr>)"
| lookup_ok:
    "Lookup domain \<in># tasks s \<Longrightarrow> resolver domain = Some ips \<Longrightarrow>
     step resolver plain s
       (s\<lparr>tasks := add_mset (SendResult \<lparr>Domain = domain, Ips = ips\<rparr>)
                      (tasks s - {#Lookup domain#})\<rparr>)"
| lookup_err:
    "Lookup domain \<in># tasks s \<Longrightarrow> resolver domain = None \<Longrightarrow>
     step resolver plain s
       (s\<lparr>tasks := add_mset (SendError domain) (tasks s - {#Lookup domain#})\<rparr>)"
| send_result:
    "SendResult r \<in># tasks s \<Longrightarrow> length (ch s) < capacity s \<Longrightarrow>
     step resolver plain s (s\<lparr>tasks := tasks s - {#SendResult r#}, ch := ch s @ [r]\<rparr>)"
| send_error:
    "SendError e \<in># tasks s \<Longrightarrow> length (errCh s) < capacity s \<Longrightarrow>
     step resolver plain s (s\<lparr>tasks := tasks s - {#SendError e#}, errCh := errCh s @ [e]\<rparr>)"
| recv_result:
    "todo s = [] \<Longrightarrow> remaining s = Suc n \<Longrightarrow> ch s = resp # rest \<Longrightarrow>
     step resolver plain s
       (s\<lparr>ch := rest, remaining := n, stdout := stdout s @ [printLine plain resp],
          consumed := consumed s @ [Resolved resp]\<rparr>)"
| recv_error:
    "todo s = [] \<Longrightarrow> remaining s = Suc n \<Longrightarrow> errCh s = e # rest \<Longrightarrow>
     step resolver plain s
       (s\<lparr>errCh := rest, remaining := n, consumed := consumed s @ [Failed e]\<rparr>)"

text \<open>
  \<^verbatim>\<open>printReachableDomains\<close> prints \<open>output\<close> when some interleaving runs from the
  start to the return of the function with that output.
\<close>

inductive printReachableDomains :: "resolver \<Rightarrow> string list \<Rightarrow> bool \<Rightarrow> string list \<Rightarrow> bool" where
  "(step resolver plain)\<^sup>*\<^sup>* (start domain) s \<Longrightarrow> returned s \<Longrightarrow>
   printReachableDomains resolver domain plain (stdout s)"

text \<open>
  \<^verbatim>\<open>printDomains\<close>: the first batch, then, when there are extended domains, the
  header (not in plain mode) and the second batch.
\<close>

inductive printDomains ::
    "resolver \<Rightarrow> string list \<Rightarrow> string list \<Rightarrow> bool \<Rightarrow> string list \<Rightarrow> bool" where
  no_extended:
    "printReachableDomains resolver domains plain out1 \<Longrightarrow> \<not> length extendedDomains > 0 \<Longrightarrow>
     printDomains resolver domains extendedDomains plain out1"
| with_extended:
    "printReachableDomains resolver domains plain out1 \<Longrightarrow> length extendedDomains > 0 \<Longrightarrow>
     printReachableDomains resolver extendedDomains plain out2 \<Longrightarrow>
     printDomains resolver domains extendedDomains plain
       (out1 @ (if \<not> plain then [CHR 0x0A # ''Extended domains:'' @ [CHR 0x0A]] else []) @ out2)"

subsection \<open>Outcomes of a batch and its invariant\<close>

text \<open>
  The outcome \<^verbatim>\<open>lookUpDns\<close> sends for a domain: the result, on \<open>ch\<close>, when the lookup
  succeeds, the domain, on \<open>errCh\<close>, when it fails. A running goroutine will send the
  outcome of its domain, or the value it is about to send.
\<close>

definition outcome_of :: "resolver \<Rightarrow> string \<Rightarrow> outcome" where
  "outcome_of resolver domain =
     (case resolver domain of None \<Rightarrow> Failed domain
      | Some ips \<Rightarrow> Resolved \<lparr>Domain = domain, Ips = ips\<rparr>)"

fun task_outcome :: "resolver \<Rightarrow> task \<Rightarrow> outcome" where
  "task_outcome resolver (Lookup domain) = outcome_of resolver domain"
| "task_outcome resolver (SendResult r) = Resolved r"
| "task_outcome resolver (SendError e) = Failed e"

text \<open>
  What the second loop of \<^verbatim>\<open>printReachableDomains\<close> prints for the outcomes it
  receives, in their order: one line for a result, nothing for a failure.
\<close>

fun printed :: "bool \<Rightarrow> outcome list \<Rightarrow> string list" where
  "printed plain [] = []"
| "printed plain (Resolved resp # outcomes) = printLine plain resp # printed plain outcomes"
| "printed plain (Failed e # outcomes) = printed plain outcomes"

text \<open>The lines of the domains of a batch that resolve, in the order of the batch.\<close>

definition resolved_lines :: "resolver \<Rightarrow> bool \<Rightarrow> string list \<Rightarrow> string list" where
  "resolved_lines resolver plain domain =
     concat (map (\<lambda>d. case resolver d of None \<Rightarrow> []
                        | Some ips \<Rightarrow> [printLine plain \<lparr>Domain = d, Ips = ips\<rparr>]) domain)"

text \<open>
  The invariant of a batch on \<open>domain\<close>: the domains launched so far and those still to
  launch are \<open>domain\<close>; of every launched domain the goroutine runs, or its outcome waits
  in a channel, or the second loop has received it; the second loop has as many iterations
  left as outcomes are still to come; and what was printed is what the outcomes received
  so far ask for.
\<close>

definition batch_inv :: "resolver \<Rightarrow> bool \<Rightarrow> string list \<Rightarrow> batch \<Rightarrow> bool" where
  "batch_inv resolver plain domain s \<longleftrightarrow>
     capacity s = length domain \<and>
     launched s @ todo s = domain \<and>
     size (tasks s) + length (ch s) + length (errCh s) + length (consumed s) =
       length (launched s) \<and>
     length (todo s) + size (tasks s) + length (ch s) + length (errCh s) = remaining s \<and>
     image_mset (task_outcome resolver) (tasks s) + mset (map Resolved (ch s)) +
       mset (map Failed (errCh s)) + mset (consumed s) =
       mset (map (outcome_of resolver) (launched s)) \<and>
     stdout s = printed plain (consumed s)"

text \<open>
  A bound on the steps a batch can still take: a domain to launch takes four (launch,
  lookup, send, receive), a goroutine before its lookup three, before its send two, a
  value in a channel one.
\<close>

fun weight :: "task \<Rightarrow> nat" where
  "weight (Lookup domain) = 3"
| "weight (SendResult r) = 2"
| "weight (SendError e) = 2"

definition steps_left :: "batch \<Rightarrow> nat" where
  "steps_left s =
     4 * length (todo s) + sum_mset (image_mset weight (tasks s)) + length (ch s) + length (errCh s)"

subsection \<open>Example inputs\<close>

definition example_cert :: "string \<Rightarrow> string \<Rightarrow> Certificate" where
  "example_cert commonName nameValue =
     \<lparr>IssuerCaId = 0, IssuerName = [], CommonName = commonName, NameValue = nameValue,
      Id = 0, EntryTimestamp = [], NotBefore = [], NotAfter = [], SerialNumber = []\<rparr>"

definition example_opts :: "string \<Rightarrow> Opts" where
  "example_opts wordsPath =
     \<lparr>Verbose = [], Plain = False, Opts_Domain = ''example.com'', File = wordsPath\<rparr>"

definition example_files :: "string \<Rightarrow> string option" where
  "example_files path =
     (if path = ''words.txt'' then Some (''api'' @ [CHR 0x0A] @ ''shop'')
      else if path = ''lines.txt'' then Some (''www'' @ [CHR 0x0A])
      else None)"

definition example_world :: world where
  "example_world = \<lparr>files = example_files, reads = []\<rparr>"

definition example_resolver :: resolver where
  "example_resolver domain =
     (if domain = ''a.example.com'' then Some [''10.0.0.1'']
      else if domain = ''b.example.com'' then Some [''10.0.0.2'', ''::1'']
      else None)"

section \<open>Properties of the string functions and of the loops\<close>


lemma foldl_snoc_map: "foldl (\<lambda>acc x. acc @ [f x]) acc xs = acc @ map f xs"
  by (induction xs arbitrary: acc) auto

lemma cleanDomainNames_map: "cleanDomainNames domains = map TrimSpace domains"
  by (simp add: cleanDomainNames_def foldl_snoc_map)

lemma partition_foldl:
  "foldl (\<lambda>(wildCards, nonWildCards) domain.
              if P domain then (wildCards @ [domain], nonWildCards)
              else (wildCards, nonWildCards @ [domain])) (ws, ns) ds
   = (ws @ filter P ds, ns @ filter (\<lambda>d. \<not> P d) ds)"
  by (induction ds arbitrary: ws ns) auto

lemma partitionDomains_filter:
  "partitionDomains domains =
     (filter (\<lambda>d. HasPrefix d ''*'') domains, filter (\<lambda>d. \<not> HasPrefix d ''*'') domains)"
  by (simp add: partitionDomains_def partition_foldl)

lemma HasPrefix_star: "HasPrefix d ''*'' \<longleftrightarrow> (case d of [] \<Rightarrow> False | c # _ \<Rightarrow> c = CHR ''*'')"
  by (cases d) (auto simp: HasPrefix_def)

lemma leadingSpace_Nil: "leadingSpace [] = None"
  by (simp add: leadingSpace_def spaceRunes_def)

lemma trailingSpace_Nil: "trailingSpace [] = None"
  by (simp add: trailingSpace_def spaceRunes_def)

lemma TrimSpace_Nil: "TrimSpace [] = []"
  by (simp add: TrimSpace_def leadingSpace_Nil trailingSpace_Nil)

lemma Split_not_Nil: "Split s sep \<noteq> []"
  by (induction s) (auto split: list.splits)

lemma Split_snoc_sep: "Split (s @ [sep]) sep = Split s sep @ [[]]"
  by (induction s) (auto split: list.splits simp: Split_not_Nil)

lemma words_of_map: "words_of content = map TrimSpace (Split content (CHR 0x0A))"
  by (simp add: words_of_def foldl_snoc_map)

lemma foldl_snoc_map_inner:
  "foldl (\<lambda>acc x. foldl (\<lambda>acc y. acc @ [g x y]) acc ys) acc xs
     = acc @ concat (map (\<lambda>x. map (g x) ys) xs)"
  by (induction xs arbitrary: acc) (auto simp: foldl_snoc_map)

lemma potentialDomains_of_concat:
  "potentialDomains_of domains words =
     concat (map (\<lambda>domain. map (Replace1 domain (CHR ''*'')) words) domains)"
  by (simp add: potentialDomains_of_def foldl_snoc_map_inner)

lemma map_exists_assign: "map_exists (map_assign m k v) k' \<longleftrightarrow> k' = k \<or> map_exists m k'"
  by (simp add: map_exists_def map_assign_def update_conv')

lemma map_exists_foldl_assign:
  "map_exists (foldl (\<lambda>m k. map_assign m k True) m ks) k \<longleftrightarrow> k \<in> set ks \<or> map_exists m k"
  by (induction ks arbitrary: m) (auto simp: map_exists_assign)

lemma map_exists_Nil: "\<not> map_exists [] k"
  by (simp add: map_exists_def)

lemma map_exists_keys: "map_exists m k \<longleftrightarrow> k \<in> set (map fst m)"
  by (simp add: map_exists_def map_of_eq_None_iff)


lemma foldl_filter_snoc:
  "foldl (\<lambda>acc x. if P x then acc @ [x] else acc) acc xs = acc @ filter P xs"
  by (induction xs arbitrary: acc) auto

lemma computeDifference_filter:
  "computeDifference domains potentialDomains = filter (\<lambda>d. d \<notin> set domains) potentialDomains"
  by (simp add: computeDifference_def Let_def map_exists_foldl_assign map_exists_Nil foldl_filter_snoc)


lemma map_exists_uniqDomains_aux:
  "map_exists (foldl (\<lambda>m cert.
              foldl (\<lambda>m nameValue. map_assign m nameValue True)
                (map_assign m (CommonName cert) True)
                (Split (NameValue cert) (CHR 0x0A))) m certificates) k
   \<longleftrightarrow> map_exists m k \<or> (\<exists>cert \<in> set certificates. k = CommonName cert \<or> k \<in> set (Split (NameValue cert) (CHR 0x0A)))"
  by (induction certificates arbitrary: m) (auto simp: map_exists_foldl_assign map_exists_assign)

lemma map_exists_uniqDomains:
  "map_exists (uniqDomains certificates) k \<longleftrightarrow>
     (\<exists>cert \<in> set certificates. k = CommonName cert \<or> k \<in> set (Split (NameValue cert) (CHR 0x0A)))"
  by (simp add: uniqDomains_def map_exists_uniqDomains_aux map_exists_Nil)

lemma maps_Keys_set: "set (maps_Keys order m) = {k. map_exists m k}"
  by (auto simp: maps_Keys_def map_exists_keys)

lemma maps_Keys_distinct: "distinct (maps_Keys order m)"
  by (auto simp: maps_Keys_def)

lemma maps_Keys_any_order:
  assumes "distinct ks" and "set ks = {k. map_exists m k}"
  shows "maps_Keys ks m = ks"
  using assms by (auto simp: maps_Keys_def map_exists_keys filter_empty_conv)

lemma Replace1_absent: "old \<notin> set s \<Longrightarrow> Replace1 s old new = s"
  by (induction s) auto

lemma Replace1_first:
  "old \<notin> set pre \<Longrightarrow> Replace1 (pre @ old # post) old new = pre @ new @ post"
  by (induction pre) auto

lemma length_potentialDomains_of:
  "length (potentialDomains_of domains words) = length domains * length words"
  by (induction domains) (auto simp: potentialDomains_of_concat)


lemma nth_concat_map_map:
  "i < length xs \<Longrightarrow> j < length ys \<Longrightarrow>
   concat (map (\<lambda>x. map (g x) ys) xs) ! (i * length ys + j) = g (xs ! i) (ys ! j)"
proof (induction xs arbitrary: i)
  case Nil
  then show ?case by simp
next
  case (Cons x xs)
  show ?case
  proof (cases i)
    case 0
    with Cons.prems show ?thesis by (simp add: nth_append)
  next
    case (Suc k)
    with Cons.prems have "k < length xs" by simp
    from Cons.IH [OF this Cons.prems(2)] Suc show ?thesis
      by (simp add: nth_append)
  qed
qed

lemma extractDomains_filter:
  "extractDomains order certificates =
     (filter (\<lambda>d. HasPrefix d ''*'') (map TrimSpace (maps_Keys order (uniqDomains certificates))),
      filter (\<lambda>d. \<not> HasPrefix d ''*'') (map TrimSpace (maps_Keys order (uniqDomains certificates))))"
  by (simp add: extractDomains_def partitionDomains_filter cleanDomainNames_map)

lemma extractDomains_set:
  "set (fst (extractDomains order certificates)) \<union> set (snd (extractDomains order certificates)) =
     TrimSpace ` (\<Union>cert \<in> set certificates.
                    insert (CommonName cert) (set (Split (NameValue cert) (CHR 0x0A))))"
  by (auto simp: extractDomains_filter maps_Keys_set map_exists_uniqDomains)

lemma extractDomains_mset:
  "mset (fst (extractDomains order certificates)) + mset (snd (extractDomains order certificates)) =
     image_mset TrimSpace (mset_set (\<Union>cert \<in> set certificates.
                    insert (CommonName cert) (set (Split (NameValue cert) (CHR 0x0A)))))"
proof -
  let ?ks = "maps_Keys order (uniqDomains certificates)"
  let ?S = "\<Union>cert \<in> set certificates.
                    insert (CommonName cert) (set (Split (NameValue cert) (CHR 0x0A)))"
  have "set ?ks = ?S"
    by (auto simp: maps_Keys_set map_exists_uniqDomains)
  moreover have "mset ?ks = mset_set (set ?ks)"
    by (simp add: maps_Keys_distinct mset_set_set)
  ultimately have ks: "mset ?ks = mset_set ?S"
    by simp
  have "mset (filter P xs) + mset (filter (\<lambda>d. \<not> P d) xs) = mset xs" for P and xs :: "string list"
    by (induction xs) auto
  then have "mset (fst (extractDomains order certificates)) +
             mset (snd (extractDomains order certificates)) = mset (map TrimSpace ?ks)"
    by (simp only: extractDomains_filter fst_conv snd_conv)
  also have "\<dots> = image_mset TrimSpace (mset ?ks)"
    by simp
  finally show ?thesis
    by (simp only: ks)
qed

lemma distinct_pair_cases:
  assumes "distinct ks" and "set ks = {a, b}" and "a \<noteq> b"
  shows "ks = [a, b] \<or> ks = [b, a]"
proof -
  from assms have "length ks = 2"
    by (metis distinct_card card_2_iff)
  then obtain x y where ks: "ks = [x, y]"
    by (auto simp: length_Suc_conv numeral_2_eq_2)
  with assms show ?thesis
    by (auto simp: doubleton_eq_iff)
qed

lemma ioutil_ReadFile_Some:
  "files w path = Some content \<Longrightarrow>
   ioutil_ReadFile path w = (Inr content, w\<lparr>reads := reads w @ [path]\<rparr>)"
  by (simp add: ioutil_ReadFile_def)

lemma ioutil_ReadFile_None:
  "files w path = None \<Longrightarrow>
   ioutil_ReadFile path w = (Inl (PathError path), w\<lparr>reads := reads w @ [path]\<rparr>)"
  by (simp add: ioutil_ReadFile_def)

lemma extendWildcardDomains_Some:
  "files w wordsPath = Some content \<Longrightarrow>
   extendWildcardDomains domains wordsPath w =
     (Inr (potentialDomains_of domains (words_of content)), w\<lparr>reads := reads w @ [wordsPath]\<rparr>)"
  by (simp add: extendWildcardDomains_def ioutil_ReadFile_Some)

lemma extendWildcardDomains_None:
  "files w wordsPath = None \<Longrightarrow>
   extendWildcardDomains domains wordsPath w =
     (Inl (PathError wordsPath), w\<lparr>reads := reads w @ [wordsPath]\<rparr>)"
  by (simp add: extendWildcardDomains_def ioutil_ReadFile_None)

lemma nth_potentialDomains_of:
  "i < length domains \<Longrightarrow> j < length words \<Longrightarrow>
   potentialDomains_of domains words ! (i * length words + j) =
     Replace1 (domains ! i) (CHR ''*'') (words ! j)"
  by (simp add: potentialDomains_of_concat nth_concat_map_map)

lemma extractDomains_Nil: "extractDomains order [] = ([], [])"
  by (simp add: extractDomains_def uniqDomains_def maps_Keys_def cleanDomainNames_def
      partitionDomains_def map_exists_def)

lemma potentialDomains_of_Nil: "potentialDomains_of [] words = []"
  by (simp add: potentialDomains_of_def)

lemma computeDifference_Nil: "computeDifference domains [] = []"
  by (simp add: computeDifference_filter)

lemma getResolvableDomains_domains:
  "fst (fst (getResolvableDomains order certificates opts w)) =
     snd (extractDomains order certificates)"
  by (cases "extractDomains order certificates")
     (auto simp: getResolvableDomains_def split: prod.splits sum.splits)

lemma getResolvableDomains_reads:
  "reads (snd (getResolvableDomains order certificates opts w)) =
     (if length (File opts) > 0 then reads w @ [File opts] else reads w)"
  by (cases "extractDomains order certificates")
     (auto simp: getResolvableDomains_def extendWildcardDomains_def ioutil_ReadFile_def
           split: prod.splits sum.splits option.splits)

lemma set_potentialDomains_of:
  "set (potentialDomains_of domains words) =
     (\<Union>domain \<in> set domains. (\<lambda>word. Replace1 domain (CHR ''*'') word) ` set words)"
  by (auto simp: potentialDomains_of_concat)

lemma words_of_snoc_newline: "words_of (body @ [CHR 0x0A]) = words_of body @ [[]]"
  by (simp add: words_of_map Split_snoc_sep TrimSpace_Nil)

subsection \<open>Batches: invariant, progress and termination\<close>

lemma printed_append: "printed plain (xs @ ys) = printed plain xs @ printed plain ys"
  by (induction plain xs rule: printed.induct) auto

lemma batch_inv_start: "batch_inv resolver plain domain (start domain)"
  by (simp add: batch_inv_def start_def)

lemma batch_inv_step:
  assumes "step resolver plain s s'" and "batch_inv resolver plain domain s"
  shows "batch_inv resolver plain domain s'"
  using assms
proof (induction rule: step.induct)
  case (launch s domain rest)
  then show ?case by (simp add: batch_inv_def)
next
  case (lookup_ok domain' s ips)
  then show ?case
    by (auto simp: batch_inv_def outcome_of_def dest!: multi_member_split)
next
  case (lookup_err domain' s)
  then show ?case
    by (auto simp: batch_inv_def outcome_of_def dest!: multi_member_split)
next
  case (send_result r s)
  then show ?case
    by (auto simp: batch_inv_def dest!: multi_member_split)
next
  case (send_error e s)
  then show ?case
    by (auto simp: batch_inv_def dest!: multi_member_split)
next
  case (recv_result s n resp rest)
  then show ?case
    by (auto simp: batch_inv_def printed_append)
next
  case (recv_error s n e rest)
  then show ?case
    by (auto simp: batch_inv_def printed_append)
qed

lemma batch_inv_reachable:
  "(step resolver plain)\<^sup>*\<^sup>* (start domain) s \<Longrightarrow> batch_inv resolver plain domain s"
  by (induction rule: rtranclp_induct) (auto intro: batch_inv_start batch_inv_step)

lemma step_decreases: "step resolver plain s s' \<Longrightarrow> steps_left s' < steps_left s"
  by (induction rule: step.induct) (auto simp: steps_left_def dest!: multi_member_split)

lemma wf_step: "wf {(s', s). step resolver plain s s'}"
  by (rule wf_subset [OF wf_measure [of steps_left]]) (auto simp: step_decreases)

lemma batch_progress:
  assumes "batch_inv resolver plain domain s" and "\<not> returned s"
  shows "\<exists>s'. step resolver plain s s'"
proof (cases "todo s")
  case (Cons d rest)
  then show ?thesis by (blast intro: step.launch)
next
  case Nil
  with assms obtain n where n: "remaining s = Suc n"
    by (auto simp: returned_def gr0_conv_Suc)
  show ?thesis
  proof (cases "ch s")
    case (Cons resp rest)
    with Nil n show ?thesis by (blast intro: step.recv_result)
  next
    case chNil: Nil
    show ?thesis
    proof (cases "errCh s")
      case (Cons e rest)
      with Nil n show ?thesis by (blast intro: step.recv_error)
    next
      case errNil: Nil
      with Nil chNil n assms(1) have sz: "size (tasks s) = Suc n" and cap: "0 < capacity s"
        by (auto simp: batch_inv_def)
      from sz obtain t where t: "t \<in># tasks s"
        by (blast dest: size_eq_Suc_imp_elem)
      show ?thesis
      proof (cases t)
        case (Lookup d)
        show ?thesis
        proof (cases "resolver d")
          case None
          with t Lookup show ?thesis by (blast intro: step.lookup_err)
        next
          case (Some ips)
          with t Lookup show ?thesis by (blast intro: step.lookup_ok)
        qed
      next
        case (SendResult r)
        with t chNil cap show ?thesis by (auto intro!: exI step.send_result)
      next
        case (SendError e)
        with t errNil cap show ?thesis by (auto intro!: exI step.send_error)
      qed
    qed
  qed
qed

lemma batch_returns:
  "batch_inv resolver plain domain s \<Longrightarrow> \<exists>s'. (step resolver plain)\<^sup>*\<^sup>* s s' \<and> returned s'"
proof (induction s rule: wf_induct_rule [OF wf_step [of resolver plain]])
  case (1 s)
  show ?case
  proof (cases "returned s")
    case True
    then show ?thesis by blast
  next
    case False
    with 1 obtain s1 where s1: "step resolver plain s s1"
      by (blast dest: batch_progress)
    with 1 have "batch_inv resolver plain domain s1"
      by (blast intro: batch_inv_step)
    with 1 s1 obtain s' where "(step resolver plain)\<^sup>*\<^sup>* s1 s'" and "returned s'"
      by blast
    with s1 show ?thesis
      by (blast intro: converse_rtranclp_into_rtranclp)
  qed
qed

lemma batch_inv_returned:
  assumes "batch_inv resolver plain domain s" and "returned s"
  shows "launched s = domain" and "tasks s = {#}" and "ch s = []" and "errCh s = []"
    and "length (consumed s) = length domain"
    and "mset (consumed s) = mset (map (outcome_of resolver) domain)"
  using assms by (auto simp: batch_inv_def returned_def)

lemma mset_printed:
  "mset (printed plain outcomes) =
     (\<Sum>x \<in># mset outcomes. case x of Resolved resp \<Rightarrow> {#printLine plain resp#} | Failed e \<Rightarrow> {#})"
  by (induction plain outcomes rule: printed.induct) auto

lemma mset_resolved_lines:
  "mset (resolved_lines resolver plain domain) =
     (\<Sum>x \<in># mset (map (outcome_of resolver) domain).
        case x of Resolved resp \<Rightarrow> {#printLine plain resp#} | Failed e \<Rightarrow> {#})"
  by (induction domain) (auto simp: resolved_lines_def outcome_of_def split: option.splits)

lemma printReachableDomains_lines:
  assumes "printReachableDomains resolver domain plain output"
  shows "mset output = mset (resolved_lines resolver plain domain)"
  using assms
proof cases
  case (1 s)
  then have inv: "batch_inv resolver plain domain s"
    by (blast intro: batch_inv_reachable)
  with 1 have "mset (consumed s) = mset (map (outcome_of resolver) domain)"
    by (blast intro: batch_inv_returned)
  moreover from inv 1 have "output = printed plain (consumed s)"
    by (simp add: batch_inv_def)
  ultimately show ?thesis
    by (simp only: mset_printed mset_resolved_lines)
qed

lemma printReachableDomains_total: "\<exists>output. printReachableDomains resolver domain plain output"
proof -
  from batch_returns [OF batch_inv_start]
  obtain s where "(step resolver plain)\<^sup>*\<^sup>* (start domain) s" and "returned s"
    by blast
  then show ?thesis
    by (blast intro: printReachableDomains.intros)
qed

lemma resolved_lines_explicit:
  "resolved_lines resolver plain domain =
     concat (map (\<lambda>d. case resolver d of None \<Rightarrow> []
              | Some ips \<Rightarrow> [if plain then d @ [CHR 0x0A]
                             else d @ '' - IPs: '' @ fmtIps ips @ [CHR 0x0A]]) domain)"
  by (induction domain) (auto simp: resolved_lines_def printLine_def split: option.splits)

section \<open>The claims\<close>

text \<open>
  C1. The combined output of extraction should hold every distinct trimmed value of the
  common names and of the lines of the name values, and no string twice. The map
  \<open>uniqDomains\<close> is keyed by the strings as they stand in the certificates, and the
  names are trimmed only after its keys were taken; two names that differ in surrounding
  white space are two keys and one trimmed string. For the certificate with the common
  name \<open>a.com\<close> and the name value \<open> a.com\<close> (with a leading space) the concrete list
  is \<open>a.com\<close> twice, in every iteration order of the map. (That the output holds every
  trimmed value, \<open>extractDomains_set\<close>, and is the trimmed image of the duplicate-free
  keys, \<open>extractDomains_mset\<close>, holds.)
\<close>

theorem extractDomains_duplicate_after_trim:
  "extractDomains order [example_cert ''a.com'' '' a.com''] = ([], [''a.com'', ''a.com'']) \<and>
   \<not> distinct (fst (extractDomains order [example_cert ''a.com'' '' a.com'']) @
               snd (extractDomains order [example_cert ''a.com'' '' a.com'']))"
proof -
  let ?ks = "maps_Keys order (uniqDomains [example_cert ''a.com'' '' a.com''])"
  have "set ?ks = {''a.com'', '' a.com''}"
    by (auto simp: maps_Keys_set map_exists_uniqDomains example_cert_def)
  then have "?ks = [''a.com'', '' a.com''] \<or> ?ks = ['' a.com'', ''a.com'']"
    by (intro distinct_pair_cases maps_Keys_distinct) simp_all
  moreover have "TrimSpace '' a.com'' = ''a.com''" and "TrimSpace ''a.com'' = ''a.com''"
    by code_simp+
  ultimately have "map TrimSpace ?ks = [''a.com'', ''a.com'']"
    by auto
  then have "extractDomains order [example_cert ''a.com'' '' a.com''] =
      ([], [''a.com'', ''a.com''])"
    by (simp add: extractDomains_filter HasPrefix_def)
  then show ?thesis
    by simp
qed

text \<open>
  C2. When the word list can be read, the words are the trimmed lines of its content, and
  the expansion returns exactly \<open>|domains| * |words|\<close> raw candidates: the candidate of
  the \<open>i\<close>-th domain and the \<open>j\<close>-th word stands at index \<open>i * |words| + j\<close> and is the
  domain with its first \<open>*\<close> replaced by the word (the bytes before the first \<open>*\<close> and
  everything after it, later \<open>*\<close> included, are kept); a domain without a \<open>*\<close> is its
  own candidate.
\<close>

theorem extendWildcardDomains_raw_candidates:
  assumes "files w wordsPath = Some content"
  shows "\<exists>potentialDomains w'.
     extendWildcardDomains domains wordsPath w = (Inr potentialDomains, w') \<and>
     words_of content = map TrimSpace (Split content (CHR 0x0A)) \<and>
     length potentialDomains = length domains * length (words_of content) \<and>
     (\<forall>i < length domains. \<forall>j < length (words_of content).
        (CHR ''*'' \<notin> set (domains ! i) \<longrightarrow>
           potentialDomains ! (i * length (words_of content) + j) = domains ! i) \<and>
        (\<forall>pre post. domains ! i = pre @ ''*'' @ post \<and> CHR ''*'' \<notin> set pre \<longrightarrow>
           potentialDomains ! (i * length (words_of content) + j) =
             pre @ words_of content ! j @ post))"
proof (intro exI conjI allI impI)
  show "extendWildcardDomains domains wordsPath w =
     (Inr (potentialDomains_of domains (words_of content)), w\<lparr>reads := reads w @ [wordsPath]\<rparr>)"
    using assms by (rule extendWildcardDomains_Some)
  show "words_of content = map TrimSpace (Split content (CHR 0x0A))"
    by (rule words_of_map)
  show "length (potentialDomains_of domains (words_of content)) =
          length domains * length (words_of content)"
    by (rule length_potentialDomains_of)
next
  fix i j
  assume "i < length domains" and "j < length (words_of content)"
    and "CHR ''*'' \<notin> set (domains ! i)"
  then show "potentialDomains_of domains (words_of content) ! (i * length (words_of content) + j) =
          domains ! i"
    by (simp add: nth_potentialDomains_of Replace1_absent)
next
  fix i j pre post
  assume "i < length domains" and "j < length (words_of content)"
    and "domains ! i = pre @ ''*'' @ post \<and> CHR ''*'' \<notin> set pre"
  then show "potentialDomains_of domains (words_of content) ! (i * length (words_of content) + j) =
          pre @ words_of content ! j @ post"
    by (simp add: nth_potentialDomains_of Replace1_first)
qed

theorem extendWildcardDomains_raw_candidates_witness:
  "files example_world ''words.txt'' = Some (''api'' @ [CHR 0x0A] @ ''shop'') \<and>
   fst (extendWildcardDomains [''*.example.com''] ''words.txt'' example_world) =
     Inr [''api.example.com'', ''shop.example.com''] \<and>
   (\<exists>potentialDomains w'.
      extendWildcardDomains [''*.example.com''] ''words.txt'' example_world =
        (Inr potentialDomains, w') \<and>
      length potentialDomains =
        length [''*.example.com''] * length (words_of (''api'' @ [CHR 0x0A] @ ''shop'')))"
proof -
  have h: "files example_world ''words.txt'' = Some (''api'' @ [CHR 0x0A] @ ''shop'')"
    by (simp add: example_world_def example_files_def)
  have "words_of (''api'' @ [CHR 0x0A] @ ''shop'') = [''api'', ''shop'']"
    by code_simp
  then have "fst (extendWildcardDomains [''*.example.com''] ''words.txt'' example_world) =
     Inr [''api.example.com'', ''shop.example.com'']"
    by (simp add: extendWildcardDomains_Some [OF h] potentialDomains_of_def)
  moreover from extendWildcardDomains_raw_candidates [OF h, of "[''*.example.com'']"]
  have "\<exists>potentialDomains w'.
      extendWildcardDomains [''*.example.com''] ''words.txt'' example_world =
        (Inr potentialDomains, w') \<and>
      length potentialDomains =
        length [''*.example.com''] * length (words_of (''api'' @ [CHR 0x0A] @ ''shop''))"
    by blast
  ultimately show ?thesis
    using h by blast
qed

text \<open>
  C3. The filtering step keeps a candidate exactly when it is equal to no concrete
  hostname, in the order and with the multiplicity of the candidates: the result is the
  candidate list filtered by that test. So no string of the result is in the concrete list;
  the result can hold a string twice: the wildcards \<open>*.a.com\<close> and \<open>*a.com\<close> with the
  words \<open>x\<close>, \<open>x.\<close> and \<open>www\<close> give \<open>x.a.com\<close> twice, and both stay, while
  \<open>www.a.com\<close> is removed.
\<close>

theorem computeDifference_keeps_unknown_candidates:
  "computeDifference domains potentialDomains =
     filter (\<lambda>candidate. candidate \<notin> set domains) potentialDomains \<and>
   set (computeDifference domains potentialDomains) \<inter> set domains = {} \<and>
   computeDifference [''www.a.com'']
     (potentialDomains_of [''*.a.com'', ''*a.com''] [''x'', ''x.'', ''www'']) =
     [''x.a.com'', ''x..a.com'', ''xa.com'', ''x.a.com'', ''wwwa.com''] \<and>
   \<not> distinct (computeDifference [''www.a.com'']
     (potentialDomains_of [''*.a.com'', ''*a.com''] [''x'', ''x.'', ''www'']))"
proof -
  have "potentialDomains_of [''*.a.com'', ''*a.com''] [''x'', ''x.'', ''www''] =
      [''x.a.com'', ''x..a.com'', ''www.a.com'', ''xa.com'', ''x.a.com'', ''wwwa.com'']"
    by (simp add: potentialDomains_of_def)
  then show ?thesis
    by (auto simp: computeDifference_filter)
qed

theorem computeDifference_keeps_unknown_candidates_witness:
  "computeDifference [''www.example.com''] [''api.example.com'', ''www.example.com'', ''api.example.com''] =
     [''api.example.com'', ''api.example.com'']"
  using computeDifference_keeps_unknown_candidates
    [of "[''www.example.com'']" "[''api.example.com'', ''www.example.com'', ''api.example.com'']"]
  by simp

text \<open>
  C4. When the word list at the path of the options cannot be read, the expansion returns
  an error (when the path is not empty and the expansion is called at all), and
  \<^verbatim>\<open>getResolvableDomains\<close> still returns a result: the extended domains are empty
  and the concrete domains are those of the run without a word list (with the same
  iteration order of the map).
\<close>

theorem getResolvableDomains_read_failure:
  assumes "files w (File opts) = None"
  shows "\<exists>domains w'.
     getResolvableDomains order certificates opts w = ((domains, []), w') \<and>
     getResolvableDomains order certificates (opts\<lparr>File := []\<rparr>) w = ((domains, []), w) \<and>
     (length (File opts) > 0 \<longrightarrow>
        (\<exists>err. fst (extendWildcardDomains (fst (extractDomains order certificates)) (File opts) w) =
           Inl err))"
  using assms
  by (cases "extractDomains order certificates")
     (simp add: getResolvableDomains_def extendWildcardDomains_None)

theorem getResolvableDomains_read_failure_witness:
  "files example_world ''missing.txt'' = None \<and>
   getResolvableDomains []
     [example_cert ''*.example.com'' (''*.example.com'' @ [CHR 0x0A] @ ''www.example.com'')]
     (example_opts ''missing.txt'') example_world =
     (([''www.example.com''], []), example_world\<lparr>reads := [''missing.txt'']\<rparr>) \<and>
   getResolvableDomains []
     [example_cert ''*.example.com'' (''*.example.com'' @ [CHR 0x0A] @ ''www.example.com'')]
     (example_opts []) example_world =
     (([''www.example.com''], []), example_world)"
proof -
  let ?certs = "[example_cert ''*.example.com'' (''*.example.com'' @ [CHR 0x0A] @ ''www.example.com'')]"
  have h: "files example_world (File (example_opts ''missing.txt'')) = None"
    by (simp add: example_world_def example_files_def example_opts_def)
  have e: "extractDomains [] ?certs = ([''*.example.com''], [''www.example.com''])"
    by code_simp
  from getResolvableDomains_read_failure [OF h, of "[]" ?certs]
  obtain domains w' where
    "getResolvableDomains [] ?certs (example_opts ''missing.txt'') example_world = ((domains, []), w')"
    "getResolvableDomains [] ?certs ((example_opts ''missing.txt'')\<lparr>File := []\<rparr>) example_world =
       ((domains, []), example_world)"
    by blast
  moreover have "getResolvableDomains [] ?certs (example_opts ''missing.txt'') example_world =
     (([''www.example.com''], []), example_world\<lparr>reads := [''missing.txt'']\<rparr>)"
    using h e by (simp add: getResolvableDomains_def extendWildcardDomains_None example_opts_def
        example_world_def)
  moreover have "(example_opts ''missing.txt'')\<lparr>File := []\<rparr> = example_opts []"
    by (simp add: example_opts_def)
  ultimately show ?thesis
    using h by (simp add: example_opts_def)
qed

text \<open>
  C5, as stated, fails: with no certificate and the word-list path \<open>words.txt\<close>,
  \<^verbatim>\<open>extendWildcardDomains\<close> is called with no wildcard and reads the file.
\<close>

theorem no_certificates_still_reads_word_list:
  "reads example_world = [] \<and>
   reads (snd (getResolvableDomains [] [] (example_opts ''words.txt'') example_world)) =
     [''words.txt'']"
  by (simp add: getResolvableDomains_reads example_opts_def example_world_def)

text \<open>
  C5, amended. Given zero certificate records, extraction yields two empty lists and the
  extended-domain output is empty, whatever the options. The expansion is attempted
  whenever a word-list path is supplied: the file at a path that is not empty is read once
  (whether the read succeeds or fails changes nothing in the output); with an empty path
  no file is read.
\<close>

theorem getResolvableDomains_no_certificates:
  "extractDomains order [] = ([], []) \<and>
   fst (getResolvableDomains order [] opts w) = ([], []) \<and>
   reads (snd (getResolvableDomains order [] opts w)) =
     (if length (File opts) > 0 then reads w @ [File opts] else reads w)"
proof -
  have "fst (getResolvableDomains order [] opts w) = ([], [])"
    by (auto simp: getResolvableDomains_def extractDomains_Nil extendWildcardDomains_def
        ioutil_ReadFile_def potentialDomains_of_Nil computeDifference_Nil split: option.splits)
  then show ?thesis
    by (simp only: extractDomains_Nil getResolvableDomains_reads simp_thms)
qed

theorem getResolvableDomains_no_certificates_witness:
  "getResolvableDomains [] [] (example_opts ''words.txt'') example_world =
     (([], []), example_world\<lparr>reads := [''words.txt'']\<rparr>) \<and>
   getResolvableDomains [] [] (example_opts ''missing.txt'') example_world =
     (([], []), example_world\<lparr>reads := [''missing.txt'']\<rparr>) \<and>
   getResolvableDomains [] [] (example_opts []) example_world = (([], []), example_world)"
proof -
  have a: "files (snd (getResolvableDomains order [] opts w)) = files w" for order opts w
    by (auto simp: getResolvableDomains_def extractDomains_Nil extendWildcardDomains_def
        ioutil_ReadFile_def split: option.splits)
  have eq: "getResolvableDomains order [] opts w =
     (([], []), w\<lparr>reads := (if length (File opts) > 0 then reads w @ [File opts] else reads w)\<rparr>)"
    for order opts w
    using getResolvableDomains_no_certificates [of order opts w] a [of order opts w]
    by (cases "getResolvableDomains order [] opts w") auto
  show ?thesis
    by (simp add: eq example_opts_def example_world_def)
qed

text \<open>
  C6. Partitioning is exhaustive and disjoint: the two lists together hold the elements of
  the input, each as often as the input has it, no string is in both lists, and a string is
  in the wildcard list exactly when its first character is \<open>*\<close>. A duplicate-free input
  gives two duplicate-free lists, so every hostname of a deduplicated set appears exactly
  once, in exactly one list.
\<close>

theorem partitionDomains_exhaustive_disjoint:
  assumes "partitionDomains domains = (wildCards, nonWildCards)"
  shows "mset wildCards + mset nonWildCards = mset domains \<and>
         set wildCards \<inter> set nonWildCards = {} \<and>
         set wildCards = {d \<in> set domains. d \<noteq> [] \<and> hd d = CHR ''*''} \<and>
         set nonWildCards = {d \<in> set domains. \<not> (d \<noteq> [] \<and> hd d = CHR ''*'')} \<and>
         (distinct domains \<longrightarrow> distinct wildCards \<and> distinct nonWildCards)"
proof -
  have star: "HasPrefix d ''*'' \<longleftrightarrow> d \<noteq> [] \<and> hd d = CHR ''*''" for d
    by (cases d) (auto simp: HasPrefix_def)
  from assms have w: "wildCards = filter (\<lambda>d. HasPrefix d ''*'') domains"
    and n: "nonWildCards = filter (\<lambda>d. \<not> HasPrefix d ''*'') domains"
    by (simp_all add: partitionDomains_filter)
  show ?thesis
    unfolding w n by (auto simp: star)
qed

theorem partitionDomains_exhaustive_disjoint_witness:
  "partitionDomains [''*.example.com'', ''www.example.com'', ''''] =
     ([''*.example.com''], [''www.example.com'', '''']) \<and>
   distinct [''*.example.com'', ''www.example.com'', ''''] \<and>
   set [''*.example.com''] \<inter> set [''www.example.com'', ''''] = {} \<and>
   distinct [''*.example.com''] \<and> distinct [''www.example.com'', '''']"
proof -
  have h: "partitionDomains [''*.example.com'', ''www.example.com'', ''''] =
     ([''*.example.com''], [''www.example.com'', ''''])"
    by (simp add: partitionDomains_def HasPrefix_def)
  from partitionDomains_exhaustive_disjoint [OF h]
  have "set [''*.example.com''] \<inter> set [''www.example.com'', ''''] = {} \<and>
        (distinct [''*.example.com'', ''www.example.com'', ''''] \<longrightarrow>
         distinct [''*.example.com''] \<and> distinct [''www.example.com'', ''''])"
    by blast
  with h show ?thesis
    by simp
qed

text \<open>
  C7. For a word list whose content ends with a newline, the word list parsed from it ends
  with the empty word (the words of the content before that newline, then \<open>[]\<close>), and the
  raw candidates hold, for every wildcard \<open>*rest\<close> of the input, the string \<open>rest\<close>: the
  wildcard with its leading \<open>*\<close> replaced by the empty string.
\<close>

theorem trailing_newline_gives_empty_word:
  assumes "files w wordsPath = Some (body @ [CHR 0x0A])"
  shows "words_of (body @ [CHR 0x0A]) = words_of body @ [[]] \<and>
    (\<exists>potentialDomains w'.
       extendWildcardDomains domains wordsPath w = (Inr potentialDomains, w') \<and>
       (\<forall>rest. CHR ''*'' # rest \<in> set domains \<longrightarrow> rest \<in> set potentialDomains))"
proof -
  have "rest \<in> set (potentialDomains_of domains (words_of (body @ [CHR 0x0A])))"
    if "CHR ''*'' # rest \<in> set domains" for rest
  proof -
    have "[] \<in> set (words_of (body @ [CHR 0x0A]))"
      by (simp add: words_of_snoc_newline)
    with that have "Replace1 (CHR ''*'' # rest) (CHR ''*'') [] \<in>
        set (potentialDomains_of domains (words_of (body @ [CHR 0x0A])))"
      unfolding set_potentialDomains_of by blast
    then show ?thesis by simp
  qed
  with assms show ?thesis
    by (simp add: extendWildcardDomains_Some words_of_snoc_newline)
qed

theorem trailing_newline_gives_empty_word_witness:
  "files example_world ''lines.txt'' = Some (''www'' @ [CHR 0x0A]) \<and>
   words_of (''www'' @ [CHR 0x0A]) = [''www'', []] \<and>
   fst (extendWildcardDomains [''*.example.com''] ''lines.txt'' example_world) =
     Inr [''www.example.com'', ''.example.com''] \<and>
   ''.example.com'' \<in> set [''www.example.com'', ''.example.com'']"
proof -
  have h: "files example_world ''lines.txt'' = Some (''www'' @ [CHR 0x0A])"
    by (simp add: example_world_def example_files_def)
  have w: "words_of ''www'' = [''www'']"
    by code_simp
  from trailing_newline_gives_empty_word [OF h, of "[''*.example.com'']"]
  have "words_of (''www'' @ [CHR 0x0A]) = words_of ''www'' @ [[]]"
    by blast
  with w have ws: "words_of (''www'' @ [CHR 0x0A]) = [''www'', []]"
    by simp
  then have "fst (extendWildcardDomains [''*.example.com''] ''lines.txt'' example_world) =
     Inr [''www.example.com'', ''.example.com'']"
    by (simp add: extendWildcardDomains_Some [OF h] potentialDomains_of_def)
  with h ws show ?thesis
    by simp
qed

text \<open>
  C8. \<^verbatim>\<open>printDomains\<close> prints something in every run, and whatever it prints is: the
  lines of the first batch, then the header (a newline, \<open>Extended domains:\<close>, a newline)
  exactly when the extended list is not empty and plain mode is off, then the lines of the
  second batch. The lines of a batch are, in some order, one line for each of its domains
  that resolves: the bare domain and a newline in plain mode, the domain, \<open> - IPs: \<close>,
  the address list and a newline otherwise.
\<close>

theorem printDomains_format_and_header:
  "(\<exists>output. printDomains resolver domains extendedDomains plain output) \<and>
   (\<forall>output. printDomains resolver domains extendedDomains plain output \<longrightarrow>
      (\<exists>out1 out2.
         output = out1 @
           (if extendedDomains \<noteq> [] \<and> \<not> plain
            then [[CHR 0x0A] @ ''Extended domains:'' @ [CHR 0x0A]] else []) @ out2 \<and>
         mset out1 = mset (concat (map (\<lambda>d. case resolver d of None \<Rightarrow> []
              | Some ips \<Rightarrow> [if plain then d @ [CHR 0x0A]
                             else d @ '' - IPs: '' @ fmtIps ips @ [CHR 0x0A]]) domains)) \<and>
         mset out2 = mset (concat (map (\<lambda>d. case resolver d of None \<Rightarrow> []
              | Some ips \<Rightarrow> [if plain then d @ [CHR 0x0A]
                             else d @ '' - IPs: '' @ fmtIps ips @ [CHR 0x0A]]) extendedDomains))))"
proof (intro conjI allI impI)
  obtain out1 where o1: "printReachableDomains resolver domains plain out1"
    using printReachableDomains_total by blast
  obtain out2 where o2: "printReachableDomains resolver extendedDomains plain out2"
    using printReachableDomains_total by blast
  show "\<exists>output. printDomains resolver domains extendedDomains plain output"
  proof (cases "length extendedDomains > 0")
    case True
    with o1 o2 show ?thesis by (blast intro: printDomains.with_extended)
  next
    case False
    with o1 show ?thesis by (blast intro: printDomains.no_extended)
  qed
next
  fix printed_output
  assume "printDomains resolver domains extendedDomains plain printed_output"
  then show "\<exists>out1 out2.
         printed_output = out1 @
           (if extendedDomains \<noteq> [] \<and> \<not> plain
            then [[CHR 0x0A] @ ''Extended domains:'' @ [CHR 0x0A]] else []) @ out2 \<and>
         mset out1 = mset (concat (map (\<lambda>d. case resolver d of None \<Rightarrow> []
              | Some ips \<Rightarrow> [if plain then d @ [CHR 0x0A]
                             else d @ '' - IPs: '' @ fmtIps ips @ [CHR 0x0A]]) domains)) \<and>
         mset out2 = mset (concat (map (\<lambda>d. case resolver d of None \<Rightarrow> []
              | Some ips \<Rightarrow> [if plain then d @ [CHR 0x0A]
                             else d @ '' - IPs: '' @ fmtIps ips @ [CHR 0x0A]]) extendedDomains))"
  proof cases
    case no_extended
    then have "mset printed_output = mset (resolved_lines resolver plain domains)"
      and "extendedDomains = []"
      by (simp_all add: printReachableDomains_lines)
    then have "printed_output = printed_output @
           (if extendedDomains \<noteq> [] \<and> \<not> plain
            then [[CHR 0x0A] @ ''Extended domains:'' @ [CHR 0x0A]] else []) @ [] \<and>
         mset printed_output = mset (resolved_lines resolver plain domains) \<and>
         mset [] = mset (resolved_lines resolver plain extendedDomains)"
      by (simp add: resolved_lines_def)
    then show ?thesis
      unfolding resolved_lines_explicit by blast
  next
    case (with_extended out1 out2)
    then have "mset out1 = mset (resolved_lines resolver plain domains)"
      and "mset out2 = mset (resolved_lines resolver plain extendedDomains)"
      and "extendedDomains \<noteq> []"
      by (simp_all add: printReachableDomains_lines)
    with with_extended(1) have "printed_output = out1 @
           (if extendedDomains \<noteq> [] \<and> \<not> plain
            then [[CHR 0x0A] @ ''Extended domains:'' @ [CHR 0x0A]] else []) @ out2 \<and>
         mset out1 = mset (resolved_lines resolver plain domains) \<and>
         mset out2 = mset (resolved_lines resolver plain extendedDomains)"
      by simp
    then show ?thesis
      unfolding resolved_lines_explicit by blast
  qed
qed

theorem printDomains_format_and_header_witness:
  "printDomains example_resolver [''a.example.com''] [] True [''a.example.com'' @ [CHR 0x0A]] \<and>
   printDomains example_resolver [''a.example.com''] [''b.example.com'', ''nx.example.com''] False
     [''a.example.com - IPs: [10.0.0.1]'' @ [CHR 0x0A],
      [CHR 0x0A] @ ''Extended domains:'' @ [CHR 0x0A],
      ''b.example.com - IPs: [10.0.0.2 ::1]'' @ [CHR 0x0A]] \<and>
   printDomains example_resolver [''a.example.com''] [''b.example.com'', ''nx.example.com''] True
     [''a.example.com'' @ [CHR 0x0A], ''b.example.com'' @ [CHR 0x0A]]"
proof -
  have one: "printDomains example_resolver domains extendedDomains plain
      (l1 @ (if extendedDomains \<noteq> [] \<and> \<not> plain
             then [[CHR 0x0A] @ ''Extended domains:'' @ [CHR 0x0A]] else []) @ l2)"
    if "resolved_lines example_resolver plain domains = [l]" and "l1 = [l]"
      and "resolved_lines example_resolver plain extendedDomains = l2" and "length l2 \<le> 1"
    for domains extendedDomains plain l l1 l2
  proof -
    from printDomains_format_and_header [of example_resolver domains extendedDomains plain]
    obtain printed_output out1 out2 where
      p: "printDomains example_resolver domains extendedDomains plain printed_output"
      and "printed_output = out1 @ (if extendedDomains \<noteq> [] \<and> \<not> plain
             then [[CHR 0x0A] @ ''Extended domains:'' @ [CHR 0x0A]] else []) @ out2"
      and "mset out1 = mset (resolved_lines example_resolver plain domains)"
      and "mset out2 = mset (resolved_lines example_resolver plain extendedDomains)"
      unfolding resolved_lines_explicit by blast
    moreover from that have "l2 = [] \<or> (\<exists>x. l2 = [x])"
      by (cases l2) auto
    ultimately have "printed_output = l1 @ (if extendedDomains \<noteq> [] \<and> \<not> plain
             then [[CHR 0x0A] @ ''Extended domains:'' @ [CHR 0x0A]] else []) @ l2"
      using that by auto
    with p show ?thesis by simp
  qed
  have "printDomains example_resolver [''a.example.com''] [] True
          ([''a.example.com'' @ [CHR 0x0A]] @ (if [] \<noteq> ([] :: string list) \<and> \<not> True
             then [[CHR 0x0A] @ ''Extended domains:'' @ [CHR 0x0A]] else []) @ [])"
    by (rule one) (simp_all add: resolved_lines_def example_resolver_def printLine_def)
  moreover have "printDomains example_resolver [''a.example.com'']
          [''b.example.com'', ''nx.example.com''] False
          ([''a.example.com - IPs: [10.0.0.1]'' @ [CHR 0x0A]] @
           (if [''b.example.com'', ''nx.example.com''] \<noteq> [] \<and> \<not> False
             then [[CHR 0x0A] @ ''Extended domains:'' @ [CHR 0x0A]] else []) @
           [''b.example.com - IPs: [10.0.0.2 ::1]'' @ [CHR 0x0A]])"
    by (rule one)
       (simp_all add: resolved_lines_def example_resolver_def printLine_def fmtIps_def)
  moreover have "printDomains example_resolver [''a.example.com'']
          [''b.example.com'', ''nx.example.com''] True
          ([''a.example.com'' @ [CHR 0x0A]] @
           (if [''b.example.com'', ''nx.example.com''] \<noteq> [] \<and> \<not> True
             then [[CHR 0x0A] @ ''Extended domains:'' @ [CHR 0x0A]] else []) @
           [''b.example.com'' @ [CHR 0x0A]])"
    by (rule one)
       (simp_all add: resolved_lines_def example_resolver_def printLine_def fmtIps_def)
  ultimately show ?thesis
    by simp
qed

text \<open>
  C9. In every state a batch on \<open>domain\<close> can reach, under every interleaving of the
  steps of the launched goroutines and of the main loop: one goroutine was launched for
  each domain of a prefix of \<open>domain\<close>; every launched goroutine accounts for exactly one
  of a running goroutine, a value in a channel, a received outcome, and these are together
  the outcomes of the lookups of the launched domains; what is printed is one line for
  each received result and nothing for a received failure. When the function has returned,
  a goroutine was launched for every domain, none runs, the channels are empty, and the
  received outcomes are the outcomes of the domains, one each. A batch that has not returned can
  take a step, it reaches its return from every state, and no run is infinite. (Lookups
  are taken to return.)
\<close>

theorem batch_drains_one_outcome_per_task:
  assumes "(step resolver plain)\<^sup>*\<^sup>* (start domain) s"
  shows "launched s @ todo s = domain \<and>
         size (tasks s) + length (ch s) + length (errCh s) + length (consumed s) =
           length (launched s) \<and>
         image_mset (task_outcome resolver) (tasks s) + mset (map Resolved (ch s)) +
           mset (map Failed (errCh s)) + mset (consumed s) =
           mset (map (outcome_of resolver) (launched s)) \<and>
         stdout s = printed plain (consumed s) \<and>
         (returned s \<longrightarrow>
            launched s = domain \<and> tasks s = {#} \<and> ch s = [] \<and> errCh s = [] \<and>
            length (consumed s) = length domain \<and>
            mset (consumed s) = mset (map (outcome_of resolver) domain) \<and>
            mset (stdout s) = mset (resolved_lines resolver plain domain)) \<and>
         (\<not> returned s \<longrightarrow> (\<exists>s'. step resolver plain s s')) \<and>
         (\<exists>s'. (step resolver plain)\<^sup>*\<^sup>* s s' \<and> returned s') \<and>
         wf {(s', s). step resolver plain s s'}"
proof -
  from assms have inv: "batch_inv resolver plain domain s"
    by (rule batch_inv_reachable)
  then have all: "launched s @ todo s = domain"
    and count: "size (tasks s) + length (ch s) + length (errCh s) + length (consumed s) =
           length (launched s)"
    and outcomes: "image_mset (task_outcome resolver) (tasks s) + mset (map Resolved (ch s)) +
           mset (map Failed (errCh s)) + mset (consumed s) =
           mset (map (outcome_of resolver) (launched s))"
    and out: "stdout s = printed plain (consumed s)"
    by (simp_all add: batch_inv_def)
  have ret: "launched s = domain \<and> tasks s = {#} \<and> ch s = [] \<and> errCh s = [] \<and>
            length (consumed s) = length domain \<and>
            mset (consumed s) = mset (map (outcome_of resolver) domain) \<and>
            mset (stdout s) = mset (resolved_lines resolver plain domain)" if "returned s"
  proof -
    from assms that have "printReachableDomains resolver domain plain (stdout s)"
      by (rule printReachableDomains.intros)
    then have "mset (stdout s) = mset (resolved_lines resolver plain domain)"
      by (rule printReachableDomains_lines)
    with batch_inv_returned [OF inv that] show ?thesis
      by simp
  qed
  have prog: "\<exists>s'. step resolver plain s s'" if "\<not> returned s"
    using inv that by (rule batch_progress)
  have fin: "\<exists>s'. (step resolver plain)\<^sup>*\<^sup>* s s' \<and> returned s'"
    using inv by (rule batch_returns)
  from all count outcomes out ret prog fin wf_step [of resolver plain] show ?thesis
    by blast
qed

theorem batch_drains_one_outcome_per_task_witness:
  "(step example_resolver True)\<^sup>*\<^sup>* (start [''a.example.com'', ''nx.example.com''])
      (start [''a.example.com'', ''nx.example.com'']) \<and>
   (\<exists>s. (step example_resolver True)\<^sup>*\<^sup>* (start [''a.example.com'', ''nx.example.com'']) s \<and>
        returned s \<and> tasks s = {#} \<and> ch s = [] \<and> errCh s = [] \<and>
        mset (consumed s) =
          {#Resolved \<lparr>Domain = ''a.example.com'', Ips = [''10.0.0.1'']\<rparr>,
            Failed ''nx.example.com''#} \<and>
        stdout s = [''a.example.com'' @ [CHR 0x0A]])"
proof -
  let ?D = "[''a.example.com'', ''nx.example.com'']"
  have h: "(step example_resolver True)\<^sup>*\<^sup>* (start ?D) (start ?D)"
    by simp
  from batch_drains_one_outcome_per_task [OF h]
  obtain s where s: "(step example_resolver True)\<^sup>*\<^sup>* (start ?D) s" and r: "returned s"
    by blast
  from batch_drains_one_outcome_per_task [OF s] r
  have "tasks s = {#}" and "ch s = []" and "errCh s = []"
    and c: "mset (consumed s) = mset (map (outcome_of example_resolver) ?D)"
    and o: "mset (stdout s) = mset (resolved_lines example_resolver True ?D)"
    by blast+
  moreover from c have "mset (consumed s) =
          {#Resolved \<lparr>Domain = ''a.example.com'', Ips = [''10.0.0.1'']\<rparr>,
            Failed ''nx.example.com''#}"
    by (simp add: outcome_of_def example_resolver_def)
  moreover from o have "stdout s = [''a.example.com'' @ [CHR 0x0A]]"
    by (simp add: resolved_lines_def example_resolver_def printLine_def)
  ultimately show ?thesis
    using h s r by blast
qed

text \<open>
  C10. When some certificate has an empty common name, or a name value with an empty line,
  the empty string is in the concrete list of the extraction and in the concrete-domain
  output of \<^verbatim>\<open>getResolvableDomains\<close>, in every iteration order of the map, and it
  is among the domains a resolution batch started on that output launches lookups for.
\<close>

theorem empty_name_is_concrete:
  assumes "cert \<in> set certificates"
    and "CommonName cert = [] \<or> [] \<in> set (Split (NameValue cert) (CHR 0x0A))"
  shows "[] \<in> set (snd (extractDomains order certificates)) \<and>
         [] \<in> set (fst (fst (getResolvableDomains order certificates opts w))) \<and>
         [] \<in> set (todo (start (fst (fst (getResolvableDomains order certificates opts w)))))"
proof -
  from assms have "map_exists (uniqDomains certificates) []"
    unfolding map_exists_uniqDomains by metis
  then have "[] \<in> set (maps_Keys order (uniqDomains certificates))"
    by (simp add: maps_Keys_set)
  then have "TrimSpace [] \<in> set (map TrimSpace (maps_Keys order (uniqDomains certificates)))"
    by (simp only: set_map) (rule imageI)
  then have "[] \<in> set (snd (extractDomains order certificates))"
    by (simp add: extractDomains_filter TrimSpace_Nil HasPrefix_def)
  then show ?thesis
    by (simp add: getResolvableDomains_domains start_def)
qed

theorem empty_name_is_concrete_witness:
  "example_cert [] ''www.example.com'' \<in> set [example_cert [] ''www.example.com''] \<and>
   CommonName (example_cert [] ''www.example.com'') = [] \<and>
   [] \<in> set (fst (fst (getResolvableDomains [] [example_cert [] ''www.example.com'']
                         (example_opts []) example_world)))"
proof -
  have c: "example_cert [] ''www.example.com'' \<in> set [example_cert [] ''www.example.com'']"
    by simp
  have n: "CommonName (example_cert [] ''www.example.com'') = []"
    by (simp add: example_cert_def)
  then have "CommonName (example_cert [] ''www.example.com'') = [] \<or>
      [] \<in> set (Split (NameValue (example_cert [] ''www.example.com'')) (CHR 0x0A))"
    by simp
  from empty_name_is_concrete [OF c this, of "[]" "example_opts []" example_world] c n
  show ?thesis
    by blast
qed

end
